theory Spec2Isabelle
  imports Main
begin

section \<open>JavaScript values and the object heap\<close>

text \<open>
  The library wraps JSON responses of a REST API into JavaScript objects. Objects are
  mutable and shared by reference, and several properties of the wrapping protocol
  (frozen metadata, deep copies, in-place mutation of a query object) are about exactly
  that, so objects live in an explicit heap: an address is an index into a list of
  objects, and allocation appends.

  An object is a list of own properties in insertion order, each with the attributes
  of an ECMAScript data property, and the \<open>extensible\<close> flag. An array is an object of
  kind \<open>ArrayObject\<close> whose properties are keyed by indices. Prototypes are not modelled:
  only own properties are read.
\<close>

type_synonym addr = nat

datatype key = Name string | Index nat

text \<open>
  Function values. \<open>ToPlainObjectFn\<close> is the closure
  \<^verbatim>\<open>function () { return cloneDeep(this) }\<close> that \<open>toPlainObject\<close> installs;
  \<open>ApiMethod m\<close> stands for a method \<open>m\<close> of an entity API object (the argument
  of \<open>enhanceWithMethods\<close>).
\<close>

datatype fn = ToPlainObjectFn | ApiMethod string

datatype jsval =
    VUndefined
  | VNull
  | VBool bool
  | VNum int
  | VStr string
  | VRef addr
  | VFun fn

record jsprop =
  pvalue :: jsval
  enumerable :: bool
  writable :: bool
  configurable :: bool

datatype okind = PlainObject | ArrayObject

record jsobj =
  kind :: okind
  props :: "(key \<times> jsprop) list"
  extensible :: bool

type_synonym heap = "jsobj list"

text \<open>
  Errors are values. \<open>TypeError\<close> and \<open>RangeError\<close> are the JavaScript exceptions;
  \<open>BadReference\<close> is returned for an address outside the heap (no JavaScript program
  can build one); \<open>Circular\<close> is returned by \<open>cloneDeep\<close> on an object graph that has a
  reference cycle, which the model does not copy, and \<open>Unmodelled\<close> by the call of a
  method whose body is not among the sources; \<open>RequestFailed m\<close> is the rejection
  of an HTTP request and \<open>Handled e\<close> the error that the error handler throws when it
  is given \<open>e\<close>.
\<close>

datatype error =
    TypeError
  | RangeError
  | BadReference
  | Circular
  | Unmodelled
  | RequestFailed string
  | Handled error

definition bindE :: "error + 'a \<Rightarrow> ('a \<Rightarrow> error + 'b) \<Rightarrow> error + 'b" where
  "bindE m f = (case m of Inl e \<Rightarrow> Inl e | Inr x \<Rightarrow> f x)"

fun mapM_heap ::
  "('a \<Rightarrow> heap \<Rightarrow> error + 'b \<times> heap) \<Rightarrow> 'a list \<Rightarrow> heap \<Rightarrow> error + 'b list \<times> heap" where
  "mapM_heap f [] h = Inr ([], h)"
| "mapM_heap f (x # xs) h =
     (case f x h of
        Inl e \<Rightarrow> Inl e
      | Inr (y, h1) \<Rightarrow>
          (case mapM_heap f xs h1 of
             Inl e \<Rightarrow> Inl e
           | Inr (ys, h2) \<Rightarrow> Inr (y # ys, h2)))"

fun forEach_heap :: "('a \<Rightarrow> heap \<Rightarrow> error + heap) \<Rightarrow> 'a list \<Rightarrow> heap \<Rightarrow> error + heap" where
  "forEach_heap f [] h = Inr h"
| "forEach_heap f (x # xs) h =
     (case f x h of Inl e \<Rightarrow> Inl e | Inr h1 \<Rightarrow> forEach_heap f xs h1)"

subsection \<open>Objects and properties\<close>

definition data_prop :: "jsval \<Rightarrow> jsprop" where
  "data_prop v = \<lparr>pvalue = v, enumerable = True, writable = True, configurable = True\<rparr>"

definition empty_object :: jsobj where
  "empty_object = \<lparr>kind = PlainObject, props = [], extensible = True\<rparr>"

definition alloc :: "jsobj \<Rightarrow> heap \<Rightarrow> jsval \<times> heap" where
  "alloc ob h = (VRef (length h), h @ [ob])"

definition enum_props :: "jsobj \<Rightarrow> (key \<times> jsprop) list" where
  "enum_props ob = filter (\<lambda>kp. enumerable (snd kp)) (props ob)"

text \<open>\<^verbatim>\<open>Object.keys(ob)\<close>: the enumerable own keys, in order.\<close>

definition object_keys :: "jsobj \<Rightarrow> key list" where
  "object_keys ob = map fst (enum_props ob)"

definition own_value :: "jsobj \<Rightarrow> key \<Rightarrow> jsval" where
  "own_value ob k = (case map_of (props ob) k of None \<Rightarrow> VUndefined | Some p \<Rightarrow> pvalue p)"

text \<open>\<^verbatim>\<open>v[k]\<close>: reading a property of \<open>undefined\<close> or \<open>null\<close> throws.\<close>

definition get_prop :: "jsval \<Rightarrow> key \<Rightarrow> heap \<Rightarrow> error + jsval" where
  "get_prop v k h =
     (case v of
        VRef a \<Rightarrow> if a < length h then Inr (own_value (h ! a) k) else Inl BadReference
      | VUndefined \<Rightarrow> Inl TypeError
      | VNull \<Rightarrow> Inl TypeError
      | _ \<Rightarrow> Inr VUndefined)"

fun put_prop :: "key \<Rightarrow> jsprop \<Rightarrow> (key \<times> jsprop) list \<Rightarrow> (key \<times> jsprop) list" where
  "put_prop k p [] = [(k, p)]"
| "put_prop k p ((k', q) # ps) =
     (if k' = k then (k, p) # ps else (k', q) # put_prop k p ps)"

text \<open>
  \<^verbatim>\<open>ob[k] = v\<close> in strict mode (module code is strict): writing a non-writable
  property, or adding a property to a non-extensible object, throws a TypeError and
  changes nothing.
\<close>

definition set_prop :: "addr \<Rightarrow> key \<Rightarrow> jsval \<Rightarrow> heap \<Rightarrow> error + heap" where
  "set_prop a k v h =
     (if a < length h then
        (let ob = h ! a in
         case map_of (props ob) k of
           Some p \<Rightarrow>
             if writable p
             then Inr (h[a := ob\<lparr>props := put_prop k (p\<lparr>pvalue := v\<rparr>) (props ob)\<rparr>])
             else Inl TypeError
         | None \<Rightarrow>
             if extensible ob
             then Inr (h[a := ob\<lparr>props := put_prop k (data_prop v) (props ob)\<rparr>])
             else Inl TypeError)
      else Inl BadReference)"

text \<open>\<^verbatim>\<open>delete ob[k]\<close> in strict mode.\<close>

definition delete_prop :: "addr \<Rightarrow> key \<Rightarrow> heap \<Rightarrow> error + heap" where
  "delete_prop a k h =
     (if a < length h then
        (let ob = h ! a in
         case map_of (props ob) k of
           None \<Rightarrow> Inr h
         | Some p \<Rightarrow>
             if configurable p
             then Inr (h[a := ob\<lparr>props := filter (\<lambda>kp. fst kp \<noteq> k) (props ob)\<rparr>])
             else Inl TypeError)
      else Inl BadReference)"

text \<open>
  \<^verbatim>\<open>Object.defineProperty(ob, k, p)\<close> with a complete data descriptor \<open>p\<close>. A
  non-configurable property keeps its \<open>enumerable\<close> and \<open>configurable\<close> attributes;
  when it is also non-writable, only the identical descriptor is accepted.
\<close>

definition define_prop :: "addr \<Rightarrow> key \<Rightarrow> jsprop \<Rightarrow> heap \<Rightarrow> error + heap" where
  "define_prop a k p h =
     (if a < length h then
        (let ob = h ! a in
         case map_of (props ob) k of
           None \<Rightarrow>
             if extensible ob
             then Inr (h[a := ob\<lparr>props := put_prop k p (props ob)\<rparr>])
             else Inl TypeError
         | Some q \<Rightarrow>
             if configurable q
             then Inr (h[a := ob\<lparr>props := put_prop k p (props ob)\<rparr>])
             else if configurable p \<or> enumerable p \<noteq> enumerable q then Inl TypeError
             else if writable q
             then Inr (h[a := ob\<lparr>props := put_prop k p (props ob)\<rparr>])
             else if writable p \<or> pvalue p \<noteq> pvalue q then Inl TypeError
             else Inr h)
      else Inl BadReference)"

text \<open>\<^verbatim>\<open>Object.freeze(ob)\<close>.\<close>

definition freeze_prop :: "jsprop \<Rightarrow> jsprop" where
  "freeze_prop p = p\<lparr>writable := False, configurable := False\<rparr>"

definition freeze_obj :: "jsobj \<Rightarrow> jsobj" where
  "freeze_obj ob =
     ob\<lparr>props := map (\<lambda>kp. (fst kp, freeze_prop (snd kp))) (props ob), extensible := False\<rparr>"

definition object_freeze :: "addr \<Rightarrow> heap \<Rightarrow> error + heap" where
  "object_freeze a h =
     (if a < length h then Inr (h[a := freeze_obj (h ! a)]) else Inl BadReference)"



definition truthy :: "jsval \<Rightarrow> bool" where
  "truthy v =
     (case v of
        VUndefined \<Rightarrow> False
      | VNull \<Rightarrow> False
      | VBool b \<Rightarrow> b
      | VNum n \<Rightarrow> n \<noteq> 0
      | VStr s \<Rightarrow> s \<noteq> []
      | VRef a \<Rightarrow> True
      | VFun f \<Rightarrow> True)"

section \<open>JSON values and their representation in the heap\<close>

text \<open>
  The data of an HTTP response is parsed JSON. \<open>json_at P h v j\<close> says that reading the
  value \<open>v\<close> in the heap \<open>h\<close> through enumerable own properties gives the JSON value
  \<open>j\<close> (keys in order), and that every object met on the way satisfies \<open>P\<close>. With the
  trivial \<open>P\<close> this is deep equality of \<open>v\<close> with \<open>j\<close>, as \<open>repr\<close>.
\<close>

datatype json =
    JNull
  | JBool bool
  | JNum int
  | JStr string
  | JArr "json list"
  | JObj "(string \<times> json) list"

fun depth :: "json \<Rightarrow> nat"
and depth_fields :: "(string \<times> json) list \<Rightarrow> nat"
and depth_elems :: "json list \<Rightarrow> nat" where
  "depth JNull = 0"
| "depth (JBool b) = 0"
| "depth (JNum n) = 0"
| "depth (JStr s) = 0"
| "depth (JArr js) = Suc (depth_elems js)"
| "depth (JObj kvs) = Suc (depth_fields kvs)"
| "depth_fields [] = 0"
| "depth_fields (kj # kvs) = max (depth (snd kj)) (depth_fields kvs)"
| "depth_elems [] = 0"
| "depth_elems (j # js) = max (depth j) (depth_elems js)"


text \<open>The enumerable own entries of an object: keys and values, in order.\<close>

definition entries :: "jsobj \<Rightarrow> (key \<times> jsval) list" where
  "entries ob = map (\<lambda>kp. (fst kp, pvalue (snd kp))) (enum_props ob)"

fun json_at :: "(addr \<Rightarrow> jsobj \<Rightarrow> bool) \<Rightarrow> heap \<Rightarrow> jsval \<Rightarrow> json \<Rightarrow> bool"
and json_at_fields ::
  "(addr \<Rightarrow> jsobj \<Rightarrow> bool) \<Rightarrow> heap \<Rightarrow> (key \<times> jsval) list \<Rightarrow> (string \<times> json) list \<Rightarrow> bool"
and json_at_elems ::
  "(addr \<Rightarrow> jsobj \<Rightarrow> bool) \<Rightarrow> heap \<Rightarrow> nat \<Rightarrow> (key \<times> jsval) list \<Rightarrow> json list \<Rightarrow> bool" where
  "json_at P h v JNull = (v = VNull)"
| "json_at P h v (JBool b) = (v = VBool b)"
| "json_at P h v (JNum n) = (v = VNum n)"
| "json_at P h v (JStr s) = (v = VStr s)"
| "json_at P h v (JObj kvs) =
     (case v of
        VRef a \<Rightarrow>
          a < length h \<and> kind (h ! a) = PlainObject \<and> P a (h ! a) \<and>
          json_at_fields P h (entries (h ! a)) kvs
      | _ \<Rightarrow> False)"
| "json_at P h v (JArr js) =
     (case v of
        VRef a \<Rightarrow>
          a < length h \<and> kind (h ! a) = ArrayObject \<and> P a (h ! a) \<and>
          json_at_elems P h 0 (entries (h ! a)) js
      | _ \<Rightarrow> False)"
| "json_at_fields P h [] [] = True"
| "json_at_fields P h (kv # es) (kj # kvs) =
     (fst kv = Name (fst kj) \<and> json_at P h (snd kv) (snd kj) \<and> json_at_fields P h es kvs)"
| "json_at_fields P h [] (kj # kvs) = False"
| "json_at_fields P h (kv # es) [] = False"
| "json_at_elems P h i [] [] = True"
| "json_at_elems P h i (kv # es) (j # js) =
     (fst kv = Index i \<and> json_at P h (snd kv) j \<and> json_at_elems P h (Suc i) es js)"
| "json_at_elems P h i [] (j # js) = False"
| "json_at_elems P h i (kv # es) [] = False"

definition repr :: "heap \<Rightarrow> jsval \<Rightarrow> json \<Rightarrow> bool" where
  "repr h v j = json_at (\<lambda>a ob. True) h v j"

text \<open>
  A plain object: extensible, and every own property an ordinary data property
  (enumerable, writable, configurable), as an object literal or \<open>JSON.parse\<close> builds it.
\<close>

definition is_plain :: "jsobj \<Rightarrow> bool" where
  "is_plain ob \<longleftrightarrow>
     extensible ob \<and> list_all (\<lambda>kp. snd kp = data_prop (pvalue (snd kp))) (props ob)"

section \<open>The helpers of the wrapping protocol\<close>

subsection \<open>lodash: cloneDeep\<close>

text \<open>
  Modelled from the spec: \<open>cloneDeep\<close> (package lodash, not among the sources) makes the
  deep copy that the spec's data model names. The copy of an object is a new plain
  object of the same kind holding copies of the enumerable own properties; primitive
  and function values are shared. The recursion follows references, so the worker
  \<open>cloneDeepN\<close> carries fuel.
\<close>

primrec cloneDeepN :: "nat \<Rightarrow> jsval \<Rightarrow> heap \<Rightarrow> error + jsval \<times> heap" where
  "cloneDeepN 0 v h = (case v of VRef a \<Rightarrow> Inl Circular | _ \<Rightarrow> Inr (v, h))"
| "cloneDeepN (Suc n) v h =
     (case v of
        VRef a \<Rightarrow>
          if a < length h then
            (case mapM_heap (cloneDeepN n) (map snd (entries (h ! a))) h of
               Inl e \<Rightarrow> Inl e
             | Inr (vs, h1) \<Rightarrow>
                 Inr (alloc \<lparr>kind = kind (h ! a),
                             props = zip (map fst (entries (h ! a))) (map data_prop vs),
                             extensible = True\<rparr> h1))
          else Inl BadReference
      | _ \<Rightarrow> Inr (v, h))"

text \<open>
  Modelled from the spec: \<open>cloneDeep\<close> itself runs the worker with the size of the heap
  as fuel. That is enough for every value that reads as JSON, whose references have no
  cycle (lemma \<open>cloneDeep_repr\<close>); on a cycle the model returns \<open>Circular\<close>.
\<close>

definition cloneDeep :: "jsval \<Rightarrow> heap \<Rightarrow> error + jsval \<times> heap" where
  "cloneDeep v h = cloneDeepN (length h) v h"

subsection \<open>contentful-sdk-core: toPlainObject\<close>

text \<open>
  Modelled from the spec: \<open>toPlainObject\<close> (package contentful-sdk-core, not among the
  sources) gives the object the method \<open>toPlainObject\<close> of \<open>DefaultElements\<close>, which
  returns the plain-object snapshot: a deep copy of the object's data. The method is a
  hidden property (not enumerable, not writable, not configurable), so it is no part of
  the data. The object itself is returned.
\<close>

definition toPlainObject_prop :: jsprop where
  "toPlainObject_prop =
     \<lparr>pvalue = VFun ToPlainObjectFn, enumerable = False, writable = False, configurable = False\<rparr>"

definition toPlainObject :: "jsval \<Rightarrow> heap \<Rightarrow> error + jsval \<times> heap" where
  "toPlainObject v h =
     (case v of
        VRef a \<Rightarrow> bindE (define_prop a (Name ''toPlainObject'') toPlainObject_prop h) (\<lambda>h1. Inr (v, h1))
      | _ \<Rightarrow> Inl TypeError)"


subsection \<open>enhance-with-methods\<close>

text \<open>
  Modelled from the spec: \<open>enhanceWithMethods\<close> (lib/enhance-with-methods, not among the
  sources) binds the methods of an API object to the entity, one hidden property per
  method, and returns the entity. The API object is given as its list of methods.
\<close>

definition method_prop :: "fn \<Rightarrow> jsprop" where
  "method_prop f = \<lparr>pvalue = VFun f, enumerable = False, writable = False, configurable = True\<rparr>"

fun enhanceWithMethods :: "jsval \<Rightarrow> (string \<times> fn) list \<Rightarrow> heap \<Rightarrow> error + jsval \<times> heap" where
  "enhanceWithMethods baseObject [] h = Inr (baseObject, h)"
| "enhanceWithMethods baseObject (mf # methodsObject) h =
     (case baseObject of
        VRef a \<Rightarrow>
          bindE (define_prop a (Name (fst mf)) (method_prop (snd mf)) h)
            (enhanceWithMethods baseObject methodsObject)
      | _ \<Rightarrow> Inl TypeError)"

subsection \<open>contentful-sdk-core: freezeSys\<close>

text \<open>\<open>isPlainObject\<close> of lodash: an object that is not an array (and not a function).\<close>

definition isPlainObject :: "jsval \<Rightarrow> heap \<Rightarrow> bool" where
  "isPlainObject v h = (case v of VRef a \<Rightarrow> a < length h \<and> kind (h ! a) = PlainObject | _ \<Rightarrow> False)"

text \<open>
  Modelled from the spec: the deep freeze behind \<open>freezeSys\<close>. The object and, through
  its enumerable properties, every plain object below it get \<open>Object.freeze\<close>, the
  properties first. Arrays are not plain objects and are not entered. The recursion
  carries fuel as \<open>cloneDeepN\<close> does (the size of the heap); running out of it is the
  \<open>RangeError\<close> of the call stack that a reference cycle exhausts.
\<close>

primrec freezeObjectDeepN :: "nat \<Rightarrow> jsval \<Rightarrow> heap \<Rightarrow> error + heap" where
  "freezeObjectDeepN 0 v h = (case v of VRef a \<Rightarrow> Inl RangeError | _ \<Rightarrow> Inr h)"
| "freezeObjectDeepN (Suc n) v h =
     (case v of
        VRef a \<Rightarrow>
          if a < length h then
            bindE (forEach_heap (\<lambda>x h1. if isPlainObject x h1 then freezeObjectDeepN n x h1 else Inr h1)
                     (map snd (entries (h ! a))) h)
              (object_freeze a)
          else Inl BadReference
      | _ \<Rightarrow> Inr h)"

definition freezeObjectDeep :: "jsval \<Rightarrow> heap \<Rightarrow> error + heap" where
  "freezeObjectDeep v h = freezeObjectDeepN (length h) v h"

text \<open>
  Modelled from the spec: \<open>freezeSys\<close> (package contentful-sdk-core, not among the
  sources) freezes the metadata of an object and returns the object:
  \<^verbatim>\<open>freezeObjectDeep(obj.sys || {})\<close>. Metadata is frozen after wrapping; the rest of the
  object is not touched. Without a \<open>sys\<close> it freezes an empty object of its own.
\<close>

definition freezeSys :: "jsval \<Rightarrow> heap \<Rightarrow> error + jsval \<times> heap" where
  "freezeSys obj h =
     bindE (get_prop obj (Name ''sys'') h) (\<lambda>s.
       if truthy s
       then bindE (freezeObjectDeep s h) (\<lambda>h1. Inr (obj, h1))
       else Inr (obj, snd (alloc (freeze_obj empty_object) h)))"


section \<open>The HTTP client\<close>

text \<open>
  The HTTP client (an \<open>AxiosInstance\<close>) is an external collaborator: it maps a request
  to the parsed JSON data of the response, or to the error the request's promise is
  rejected with. \<open>RequestConfig p\<close> is the configuration \<^verbatim>\<open>{ params: p }\<close> that
  \<open>createRequestConfig\<close> builds (below); \<open>WithHeaders hs\<close> is \<^verbatim>\<open>{ headers: hs }\<close>.
\<close>

datatype config = NoConfig | RequestConfig jsval | WithHeaders "(string \<times> string) list"

datatype request = Get string config | Post string jsval config

type_synonym AxiosInstance = "request \<Rightarrow> error + json"

type_synonym wrapper = "AxiosInstance \<Rightarrow> jsval \<Rightarrow> heap \<Rightarrow> error + jsval \<times> heap"

section \<open>Preview API keys (lib/entities/preview-api-key.ts)\<close>

subsection \<open>The types of lib/common-types.ts\<close>

record MetaLinkProps =
  link_type :: string
  linkType :: string
  link_id :: string

record SysLink =
  link_sys :: MetaLinkProps

record BasicMetaSysProps =
  sys_type :: string
  sys_id :: string
  version :: int
  createdBy :: "SysLink option"
  createdAt :: string
  updatedBy :: "SysLink option"
  updatedAt :: string

record MetaSysProps = BasicMetaSysProps +
  space :: "SysLink option"
  status :: "SysLink option"
  publishedVersion :: "int option"
  archivedVersion :: "int option"
  archivedBy :: "SysLink option"
  archivedAt :: "string option"
  deletedVersion :: "int option"
  deletedBy :: "SysLink option"
  deletedAt :: "string option"

record PreviewApiKeyProps =
  sys :: MetaSysProps
  name :: string
  description :: string


text \<open>
  The JSON value of a typed response. The fields \<open>type\<close>, \<open>id\<close> and \<open>sys\<close> of the
  source are the record fields \<open>link_type\<close>, \<open>sys_type\<close>, \<open>link_id\<close>, \<open>sys_id\<close> and
  \<open>link_sys\<close>; an optional field that is absent has no key. The \<open>sys\<close> of a collection
  is the constant \<^verbatim>\<open>{ type: 'Array' }\<close>.
\<close>

fun present :: "(string \<times> json option) list \<Rightarrow> (string \<times> json) list" where
  "present [] = []"
| "present ((k, None) # xs) = present xs"
| "present ((k, Some j) # xs) = (k, j) # present xs"

definition MetaLinkProps_json :: "MetaLinkProps \<Rightarrow> json" where
  "MetaLinkProps_json l =
     JObj [(''type'', JStr (link_type l)), (''linkType'', JStr (linkType l)), (''id'', JStr (link_id l))]"

definition SysLink_json :: "SysLink \<Rightarrow> json" where
  "SysLink_json l = JObj [(''sys'', MetaLinkProps_json (link_sys l))]"

definition MetaSysProps_fields :: "MetaSysProps \<Rightarrow> (string \<times> json option) list" where
  "MetaSysProps_fields s =
     [(''type'', Some (JStr (sys_type s))),
      (''id'', Some (JStr (sys_id s))),
      (''version'', Some (JNum (version s))),
      (''createdBy'', map_option SysLink_json (createdBy s)),
      (''createdAt'', Some (JStr (createdAt s))),
      (''updatedBy'', map_option SysLink_json (updatedBy s)),
      (''updatedAt'', Some (JStr (updatedAt s))),
      (''space'', map_option SysLink_json (space s)),
      (''status'', map_option SysLink_json (status s)),
      (''publishedVersion'', map_option JNum (publishedVersion s)),
      (''archivedVersion'', map_option JNum (archivedVersion s)),
      (''archivedBy'', map_option SysLink_json (archivedBy s)),
      (''archivedAt'', map_option JStr (archivedAt s)),
      (''deletedVersion'', map_option JNum (deletedVersion s)),
      (''deletedBy'', map_option SysLink_json (deletedBy s)),
      (''deletedAt'', map_option JStr (deletedAt s))]"

definition MetaSysProps_json :: "MetaSysProps \<Rightarrow> json" where
  "MetaSysProps_json s = JObj (present (MetaSysProps_fields s))"

definition PreviewApiKeyProps_json :: "PreviewApiKeyProps \<Rightarrow> json" where
  "PreviewApiKeyProps_json d =
     JObj [(''sys'', MetaSysProps_json (sys d)),
           (''name'', JStr (name d)),
           (''description'', JStr (description d))]"


subsection \<open>wrapPreviewApiKey\<close>

text \<open>\<^verbatim>\<open>function createPreviewApiKeyApi() { return {} }\<close>: an API object without methods.\<close>

definition createPreviewApiKeyApi :: "(string \<times> fn) list" where
  "createPreviewApiKeyApi = []"

text \<open>
  \<open>wrapPreviewApiKey\<close>: the data is copied, the copy gets \<open>toPlainObject\<close> and the methods
  of the API object, and its \<open>sys\<close> is frozen. The HTTP client (the parameter \<open>_http\<close>
  of the source) is not used.
\<close>

definition wrapPreviewApiKey :: wrapper where
  "wrapPreviewApiKey http data h =
     bindE (cloneDeep data h) (\<lambda>(cloned, h1).
     bindE (toPlainObject cloned h1) (\<lambda>(previewApiKey, h2).
     bindE (enhanceWithMethods previewApiKey createPreviewApiKeyApi h2) (\<lambda>(previewApiKeyWithMethods, h3).
     freezeSys previewApiKeyWithMethods h3)))"

subsection \<open>wrapCollection (lib/common-utils)\<close>

text \<open>
  \<^verbatim>\<open>Array.prototype.map\<close> with a callback that works on the heap: the elements of the array
  are given to \<open>f\<close> in index order and the results make a new array.
\<close>

definition array_elems :: "jsobj \<Rightarrow> jsval list" where
  "array_elems ob = map snd (entries ob)"

definition new_array :: "jsval list \<Rightarrow> jsobj" where
  "new_array vs =
     \<lparr>kind = ArrayObject, props = zip (map Index [0..<length vs]) (map data_prop vs), extensible = True\<rparr>"


text \<open>
  \<^verbatim>\<open>target[k] = v\<close> in strict mode: on an object it is \<open>set_prop\<close>; on \<open>undefined\<close>, \<open>null\<close>
  and the other primitive values it throws. The properties of function objects are not
  modelled.
\<close>

definition assign :: "jsval \<Rightarrow> key \<Rightarrow> jsval \<Rightarrow> heap \<Rightarrow> error + heap" where
  "assign target k v h =
     (case target of
        VRef a \<Rightarrow> set_prop a k v h
      | VFun f \<Rightarrow> Inr h
      | _ \<Rightarrow> Inl TypeError)"




section \<open>Operations of a client on the heap\<close>

text \<open>
  What a client can do to an object it holds: assign a property, delete one, define one,
  freeze the object. A mutation that throws changes nothing, and a client that catches
  the exception goes on with the heap as it was.
\<close>

datatype mutation =
    SetProp addr key jsval
  | DeleteProp addr key
  | DefineProp addr key jsprop
  | Freeze addr

fun target :: "mutation \<Rightarrow> addr" where
  "target (SetProp a k v) = a"
| "target (DeleteProp a k) = a"
| "target (DefineProp a k p) = a"
| "target (Freeze a) = a"





section \<open>The Organization API (createOrganizationApi)\<close>

text \<open>
  \<open>JSON.parse\<close>: the data of a response as objects of the heap.
\<close>

fun alloc_json :: "json \<Rightarrow> heap \<Rightarrow> jsval \<times> heap"
and alloc_fields :: "(string \<times> json) list \<Rightarrow> heap \<Rightarrow> (key \<times> jsprop) list \<times> heap"
and alloc_elems :: "nat \<Rightarrow> json list \<Rightarrow> heap \<Rightarrow> (key \<times> jsprop) list \<times> heap" where
  "alloc_json JNull h = (VNull, h)"
| "alloc_json (JBool b) h = (VBool b, h)"
| "alloc_json (JNum n) h = (VNum n, h)"
| "alloc_json (JStr s) h = (VStr s, h)"
| "alloc_json (JObj kvs) h =
     (case alloc_fields kvs h of
        (ps, h1) \<Rightarrow> alloc \<lparr>kind = PlainObject, props = ps, extensible = True\<rparr> h1)"
| "alloc_json (JArr js) h =
     (case alloc_elems 0 js h of
        (ps, h1) \<Rightarrow> alloc \<lparr>kind = ArrayObject, props = ps, extensible = True\<rparr> h1)"
| "alloc_fields [] h = ([], h)"
| "alloc_fields (kj # kvs) h =
     (case alloc_json (snd kj) h of
        (v, h1) \<Rightarrow>
          (case alloc_fields kvs h1 of (ps, h2) \<Rightarrow> ((Name (fst kj), data_prop v) # ps, h2)))"
| "alloc_elems i [] h = ([], h)"
| "alloc_elems i (j # js) h =
     (case alloc_json j h of
        (v, h1) \<Rightarrow>
          (case alloc_elems (Suc i) js h1 of (ps, h2) \<Rightarrow> ((Index i, data_prop v) # ps, h2)))"

text \<open>
  The wrap functions of the other entities (lib/entities) are not among the sources;
  they are parameters. As \<open>wrapPreviewApiKey\<close>, a wrap function gets the HTTP client and
  the response data and works on the heap; it issues no request.
\<close>

record entities =
  wrapAppDefinition :: wrapper
  wrapAppDefinitionCollection :: wrapper
  wrapUser :: wrapper
  wrapUserCollection :: wrapper
  wrapOrganizationMembership :: wrapper
  wrapOrganizationMembershipCollection :: wrapper
  wrapTeamMembership :: wrapper
  wrapTeamMembershipCollection :: wrapper
  wrapTeamSpaceMembership :: wrapper
  wrapTeamSpaceMembershipCollection :: wrapper
  wrapTeam :: wrapper
  wrapTeamCollection :: wrapper
  wrapSpaceMembership :: wrapper
  wrapSpaceMembershipCollection :: wrapper
  wrapOrganizationInvitation :: wrapper

text \<open>
  Modelled from the spec: \<open>errorHandler\<close> (lib/error-handler, not among the sources) is
  the single handler that errors are passed through. It translates the error of a
  failed request and throws the translation; it never returns a value.
\<close>

definition errorHandler :: "error \<Rightarrow> error + jsval" where
  "errorHandler e = Inl (Handled e)"

text \<open>
  What a call of an API method does: the HTTP requests it issues, in order, each with
  the heap as it is when the request is made (a request holds references: its query is
  an object); how the call ends, with a value (the promise is fulfilled) or with an
  error (the promise is rejected, or the call throws); and the heap it leaves.
\<close>

record outcome =
  requests :: "(request \<times> heap) list"
  settled :: "error + jsval"
  heap_after :: heap

text \<open>
  \<^verbatim>\<open>http.get(...).then(onFulfilled, onRejected)\<close>, and the same with \<open>post\<close>: the
  request is issued; when it fails, \<open>onRejected\<close> gets the error; when it succeeds,
  \<open>onFulfilled\<close> gets the data of the response. An error thrown by \<open>onFulfilled\<close>
  rejects the promise; \<open>onRejected\<close> does not see it.
\<close>

definition request_then ::
  "AxiosInstance \<Rightarrow> request \<Rightarrow> (jsval \<Rightarrow> heap \<Rightarrow> error + jsval \<times> heap) \<Rightarrow> (error \<Rightarrow> error + jsval) \<Rightarrow>
   heap \<Rightarrow> outcome" where
  "request_then http req onFulfilled onRejected h =
     (case http req of
        Inl e \<Rightarrow> \<lparr>requests = [(req, h)], settled = onRejected e, heap_after = h\<rparr>
      | Inr j \<Rightarrow>
          (case alloc_json j h of
             (data, h1) \<Rightarrow>
               (case onFulfilled data h1 of
                  Inl e \<Rightarrow> \<lparr>requests = [(req, h)], settled = Inl e, heap_after = h1\<rparr>
                | Inr (v, h2) \<Rightarrow> \<lparr>requests = [(req, h)], settled = Inr v, heap_after = h2\<rparr>)))"

text \<open>
  A call that throws before it issues a request: no request, and the call ends with the
  error.
\<close>

definition thrown :: "error \<Rightarrow> heap \<Rightarrow> outcome" where
  "thrown e h = \<lparr>requests = [], settled = Inl e, heap_after = h\<rparr>"

text \<open>
  \<^verbatim>\<open>delete ob[k]\<close> in strict mode: on an object it is \<open>delete_prop\<close>; on \<open>undefined\<close> and
  \<open>null\<close> it throws; the other primitive values have no own property to delete. The
  properties of function objects are not modelled.
\<close>

definition delete_member :: "jsval \<Rightarrow> key \<Rightarrow> heap \<Rightarrow> error + heap" where
  "delete_member ob k h =
     (case ob of
        VRef a \<Rightarrow> delete_prop a k h
      | VUndefined \<Rightarrow> Inl TypeError
      | VNull \<Rightarrow> Inl TypeError
      | _ \<Rightarrow> Inr h)"

text \<open>
  Modelled from the spec: \<open>createRequestConfig\<close> (package contentful-sdk-core, not among
  the sources) builds the configuration of a request from a query. The spec leaves
  request construction to that package, an external collaborator, and says no more of
  it; the model follows the function of the package,

  \<^verbatim>\<open>const config = {}; delete query.resolveLinks; config.params = cloneDeep(query); return config\<close>

  It deletes the property \<open>resolveLinks\<close> from the query object it is given, which is the
  caller's own object when the caller gave one, and the parameters of the request are a
  deep copy of the query made after that. The delete throws a TypeError when the
  property is there and not configurable, as in a frozen query. The result is the
  configuration or the error, with the heap as the function leaves it. The copy is the
  model's \<open>cloneDeep\<close>, which copies every query of JSON data and returns \<open>Circular\<close> on
  a query with a reference cycle.
\<close>

definition createRequestConfig :: "jsval \<Rightarrow> heap \<Rightarrow> (error + config) \<times> heap" where
  "createRequestConfig query h =
     (case delete_member query (Name ''resolveLinks'') h of
        Inl e \<Rightarrow> (Inl e, h)
      | Inr h1 \<Rightarrow>
          (case cloneDeep query h1 of
             Inl e \<Rightarrow> (Inl e, h1)
           | Inr (params, h2) \<Rightarrow> (Inr (RequestConfig params), h2)))"


text \<open>
  The options \<^verbatim>\<open>opts: { teamId?: string; query?: QueryOptions } = {}\<close>, and
  \<^verbatim>\<open>get(opts, 'query', {})\<close> of lodash: the property \<open>query\<close> (the field \<open>opts_query\<close>)
  when it is there, the default (an object that the call has built) otherwise.
\<close>

record Opts =
  teamId :: "string option"
  opts_query :: "addr option"

definition get_query :: "Opts \<Rightarrow> heap \<Rightarrow> jsval \<times> heap" where
  "get_query opts h =
     (case alloc empty_object h of
        (dflt, h1) \<Rightarrow> (case opts_query opts of None \<Rightarrow> (dflt, h1) | Some a \<Rightarrow> (VRef a, h1)))"

definition opt_value :: "string option \<Rightarrow> jsval" where
  "opt_value s = (case s of None \<Rightarrow> VUndefined | Some t \<Rightarrow> VStr t)"

text \<open>String concatenation with an optional string: \<open>undefined\<close> reads \<^verbatim>\<open>'undefined'\<close>.\<close>

definition opt_string :: "string option \<Rightarrow> string" where
  "opt_string s = (case s of None \<Rightarrow> ''undefined'' | Some t \<Rightarrow> t)"











definition getTeamMemberships :: "entities \<Rightarrow> AxiosInstance \<Rightarrow> Opts \<Rightarrow> heap \<Rightarrow> outcome" where
  "getTeamMemberships ents http opts h =
     (case get_query opts h of
        (query, h1) \<Rightarrow>
          if truthy (opt_value (teamId opts))
          then (case createRequestConfig query h1 of
                  (Inl e, h2) \<Rightarrow> thrown e h2
                | (Inr config, h2) \<Rightarrow>
                    request_then http
                      (Get (''teams/'' @ opt_string (teamId opts) @ ''/team_memberships'') config)
                      (wrapTeamMembershipCollection ents http) errorHandler h2)
          else (case createRequestConfig query h1 of
                  (Inl e, h2) \<Rightarrow> thrown e h2
                | (Inr config, h2) \<Rightarrow>
                    request_then http (Get ''team_memberships'' config)
                      (wrapTeamMembershipCollection ents http) errorHandler h2))"














section \<open>Notions of the statements and proofs\<close>

text \<open>
  \<open>anc h S d\<close>: the addresses of \<open>S\<close> are objects of the heap, each read as a JSON
  value deeper than \<open>d\<close> (the ancestors on a path into a JSON value).
\<close>

definition anc :: "heap \<Rightarrow> addr set \<Rightarrow> nat \<Rightarrow> bool" where
  "anc h S d \<longleftrightarrow> S \<subseteq> {..<length h} \<and> (\<forall>a\<in>S. \<exists>J. json_at (\<lambda>a ob. True) h (VRef a) J \<and> d < depth J)"


text \<open>
  The object of a wrapped preview API key whose \<open>sys\<close> is the value \<open>s\<close>: the three data
  properties and the hidden method \<open>toPlainObject\<close>.
\<close>

definition entity_object :: "jsval \<Rightarrow> PreviewApiKeyProps \<Rightarrow> jsobj" where
  "entity_object s d =
     \<lparr>kind = PlainObject,
      props = [(Name ''sys'', data_prop s),
               (Name ''name'', data_prop (VStr (name d))),
               (Name ''description'', data_prop (VStr (description d))),
               (Name ''toPlainObject'', toPlainObject_prop)],
      extensible = True\<rparr>"


text \<open>
  \<open>takes_assignment h a k\<close>: the object at \<open>a\<close> takes the assignment \<^verbatim>\<open>ob[k] = v\<close>: it
  has a writable property \<open>k\<close>, or it has none and is extensible.
\<close>

definition takes_assignment :: "heap \<Rightarrow> addr \<Rightarrow> key \<Rightarrow> bool" where
  "takes_assignment h a k \<longleftrightarrow>
     a < length h \<and>
     (case map_of (props (h ! a)) k of Some p \<Rightarrow> writable p | None \<Rightarrow> extensible (h ! a))"

text \<open>
  \<open>lets_delete h a k\<close>: the object at \<open>a\<close> lets \<^verbatim>\<open>delete ob[k]\<close> pass: it has no
  property \<open>k\<close>, or a configurable one. \<open>shows_prop h a k\<close>: it has no hidden
  (not enumerable) property \<open>k\<close>.
\<close>

definition lets_delete :: "heap \<Rightarrow> addr \<Rightarrow> key \<Rightarrow> bool" where
  "lets_delete h a k \<longleftrightarrow>
     a < length h \<and>
     (case map_of (props (h ! a)) k of Some p \<Rightarrow> configurable p | None \<Rightarrow> True)"


text \<open>
  An object without its property \<open>k\<close>; and on JSON, the fields of an object without
  the key \<open>s\<close>, and with the key \<open>s\<close> set to \<open>j\<close> (in its place when the key is
  there, at the end otherwise).
\<close>

definition without_prop :: "key \<Rightarrow> jsobj \<Rightarrow> jsobj" where
  "without_prop k ob = ob\<lparr>props := filter (\<lambda>kp. fst kp \<noteq> k) (props ob)\<rparr>"

definition drop_field :: "string \<Rightarrow> (string \<times> json) list \<Rightarrow> (string \<times> json) list" where
  "drop_field s kvs = filter (\<lambda>kj. fst kj \<noteq> s) kvs"






section \<open>Example inputs\<close>

definition ex_link :: SysLink where
  "ex_link = \<lparr>link_sys = \<lparr>link_type = ''Link'', linkType = ''Space'', link_id = ''sp1''\<rparr>\<rparr>"

definition ex_sys :: MetaSysProps where
  "ex_sys =
     \<lparr>sys_type = ''PreviewApiKey'', sys_id = ''k1'', version = 1, createdBy = None,
      createdAt = ''2020-01-01'', updatedBy = None, updatedAt = ''2020-01-02'',
      space = Some ex_link, status = None, publishedVersion = None, archivedVersion = None,
      archivedBy = None, archivedAt = None, deletedVersion = None, deletedBy = None,
      deletedAt = None\<rparr>"

definition ex_key :: PreviewApiKeyProps where
  "ex_key = \<lparr>sys = ex_sys, name = ''preview'', description = ''a key''\<rparr>"

definition ex_http :: AxiosInstance where
  "ex_http r = Inl (RequestFailed ''offline'')"

definition ex_http2 :: AxiosInstance where
  "ex_http2 r = Inr JNull"

definition ex_data :: jsval where
  "ex_data = fst (alloc_json (PreviewApiKeyProps_json ex_key) [])"

definition ex_heap :: heap where
  "ex_heap = snd (alloc_json (PreviewApiKeyProps_json ex_key) [])"




definition ex_wrapper :: wrapper where
  "ex_wrapper http data h = Inr (data, h)"

definition ex_entities :: entities where
  "ex_entities =
     \<lparr>wrapAppDefinition = ex_wrapper, wrapAppDefinitionCollection = ex_wrapper,
      wrapUser = ex_wrapper, wrapUserCollection = ex_wrapper,
      wrapOrganizationMembership = ex_wrapper, wrapOrganizationMembershipCollection = ex_wrapper,
      wrapTeamMembership = ex_wrapper, wrapTeamMembershipCollection = ex_wrapper,
      wrapTeamSpaceMembership = ex_wrapper, wrapTeamSpaceMembershipCollection = ex_wrapper,
      wrapTeam = ex_wrapper, wrapTeamCollection = ex_wrapper,
      wrapSpaceMembership = ex_wrapper, wrapSpaceMembershipCollection = ex_wrapper,
      wrapOrganizationInvitation = ex_wrapper\<rparr>"

text \<open>
  A caller's heap with one query object, \<^verbatim>\<open>{ limit: 10 }\<close>, the same with the object
  frozen, and options that name the object and a team; and the same for the query
  \<^verbatim>\<open>{ resolveLinks: true, limit: 10 }\<close>.
\<close>

definition ex_query_heap :: heap where
  "ex_query_heap =
     [\<lparr>kind = PlainObject, props = [(Name ''limit'', data_prop (VNum 10))], extensible = True\<rparr>]"


definition ex_opts :: Opts where
  "ex_opts = \<lparr>teamId = Some ''team1'', opts_query = Some 0\<rparr>"

definition ex_links_heap :: heap where
  "ex_links_heap =
     [\<lparr>kind = PlainObject,
       props = [(Name ''resolveLinks'', data_prop (VBool True)), (Name ''limit'', data_prop (VNum 10))],
       extensible = True\<rparr>]"

definition ex_frozen_links_heap :: heap where
  "ex_frozen_links_heap = [freeze_obj (ex_links_heap ! 0)]"

section \<open>Reading a heap as JSON\<close>

lemma json_at_transfer_all:
  assumes len: "length h \<le> length h'"
    and step: "\<And>a. a < length h \<Longrightarrow> P a (h ! a) \<Longrightarrow>
                 Q a (h' ! a) \<and> kind (h' ! a) = kind (h ! a) \<and> entries (h' ! a) = entries (h ! a)"
  shows "(json_at P h v j \<longrightarrow> json_at Q h' v j)"
    and "(json_at_fields P h es kvs \<longrightarrow> json_at_fields Q h' es kvs)"
    and "(json_at_elems P h i es js \<longrightarrow> json_at_elems Q h' i es js)"
  using assms
proof (induction P h v j and P h es kvs and P h i es js
       rule: json_at_json_at_fields_json_at_elems.induct)
  case (5 P h v kvs)
  show ?case
  proof (cases v)
    case (VRef a)
    show ?thesis
    proof
      assume a: "json_at P h v (JObj kvs)"
      with VRef have b: "a < length h" "kind (h ! a) = PlainObject" "P a (h ! a)"
        "json_at_fields P h (entries (h ! a)) kvs" by auto
      from "5.prems"(2)[OF b(1) b(3)] have c: "Q a (h' ! a)" "kind (h' ! a) = kind (h ! a)"
        "entries (h' ! a) = entries (h ! a)" by auto
      from "5.IH"[OF VRef "5.prems"] b(4) have "json_at_fields Q h' (entries (h ! a)) kvs" by blast
      with b c "5.prems"(1) VRef show "json_at Q h' v (JObj kvs)" by auto
    qed
  qed auto
next
  case (6 P h v js)
  show ?case
  proof (cases v)
    case (VRef a)
    show ?thesis
    proof
      assume a: "json_at P h v (JArr js)"
      with VRef have b: "a < length h" "kind (h ! a) = ArrayObject" "P a (h ! a)"
        "json_at_elems P h 0 (entries (h ! a)) js" by auto
      from "6.prems"(2)[OF b(1) b(3)] have c: "Q a (h' ! a)" "kind (h' ! a) = kind (h ! a)"
        "entries (h' ! a) = entries (h ! a)" by auto
      from "6.IH"[OF VRef "6.prems"] b(4) have "json_at_elems Q h' 0 (entries (h ! a)) js" by blast
      with b c "6.prems"(1) VRef show "json_at Q h' v (JArr js)" by auto
    qed
  qed auto
qed auto

subsection \<open>A value reads as one JSON value, no deeper than the heap is large\<close>

lemma json_at_functional_all:
  shows "(\<forall>j'. json_at P h v j \<longrightarrow> json_at Q h v j' \<longrightarrow> j = j')"
    and "(\<forall>kvs'. json_at_fields P h es kvs \<longrightarrow> json_at_fields Q h es kvs' \<longrightarrow> kvs = kvs')"
    and "(\<forall>js'. json_at_elems P h i es js \<longrightarrow> json_at_elems Q h i es js' \<longrightarrow> js = js')"
proof (induction P h v j and P h es kvs and P h i es js
       rule: json_at_json_at_fields_json_at_elems.induct)
  case (1 P h v)
  show ?case by (rule allI, case_tac j') (auto split: jsval.splits)
next
  case (2 P h v b)
  show ?case by (rule allI, case_tac j') (auto split: jsval.splits)
next
  case (3 P h v n)
  show ?case by (rule allI, case_tac j') (auto split: jsval.splits)
next
  case (4 P h v s)
  show ?case by (rule allI, case_tac j') (auto split: jsval.splits)
next
  case (5 P h v kvs)
  show ?case
  proof (intro allI impI)
    fix j' assume a: "json_at P h v (JObj kvs)" and b: "json_at Q h v j'"
    from a obtain x where v: "v = VRef x" by (cases v) auto
    from a v have k: "kind (h ! x) = PlainObject" by simp
    from b v k obtain kvs' where j': "j' = JObj kvs'" by (cases j') auto
    from "5.IH"[OF v] a b v j' show "JObj kvs = j'" by auto
  qed
next
  case (6 P h v js)
  show ?case
  proof (intro allI impI)
    fix j' assume a: "json_at P h v (JArr js)" and b: "json_at Q h v j'"
    from a obtain x where v: "v = VRef x" by (cases v) auto
    from a v have k: "kind (h ! x) = ArrayObject" by simp
    from b v k obtain js' where j': "j' = JArr js'" by (cases j') auto
    from "6.IH"[OF v] a b v j' show "JArr js = j'" by auto
  qed
next
  case (8 P h kv es kj kvs)
  show ?case
  proof (intro allI impI)
    fix kvs' assume a: "json_at_fields P h (kv # es) (kj # kvs)" and b: "json_at_fields Q h (kv # es) kvs'"
    from b obtain kj' kvs2 where c: "kvs' = kj' # kvs2" by (cases kvs') auto
    from a b c "8.IH" have "snd kj = snd kj'" "kvs = kvs2" "fst kj = fst kj'" by auto
    with c show "kj # kvs = kvs'" by (simp add: prod_eq_iff)
  qed
next
  case (12 P h i kv es j js)
  show ?case
  proof (intro allI impI)
    fix js' assume a: "json_at_elems P h i (kv # es) (j # js)" and b: "json_at_elems Q h i (kv # es) js'"
    from b obtain j' js2 where c: "js' = j' # js2" by (cases js') auto
    from a b c "12.IH" show "j # js = js'" by auto
  qed
next
  case (7 P h) show ?case by (rule allI, case_tac kvs') auto
next
  case (11 P h i) show ?case by (rule allI, case_tac js') auto
qed auto

lemma json_at_functional: "json_at P h v j \<Longrightarrow> json_at Q h v j' \<Longrightarrow> j = j'"
  using json_at_functional_all(1) by blast

lemma depth_fields_mem: "kj \<in> set kvs \<Longrightarrow> depth (snd kj) \<le> depth_fields kvs"
  by (induction kvs) auto

lemma depth_elems_mem: "j \<in> set js \<Longrightarrow> depth j \<le> depth_elems js"
  by (induction js) auto

text \<open>
  A chain of references inside a value that is read as JSON meets no address twice, so
  the depth of the JSON value is bounded by the size of the heap.
\<close>

lemma anc_card: "anc h S d \<Longrightarrow> card S \<le> length h"
  by (metis anc_def card_lessThan card_mono finite_lessThan)

lemma anc_mono: "anc h S d \<Longrightarrow> d' \<le> d \<Longrightarrow> anc h S d'"
  unfolding anc_def by (meson le_less_trans)

lemma anc_insert:
  assumes "anc h S (depth J)" "json_at (\<lambda>a ob. True) h (VRef a) J" "d < depth J"
  shows "anc h (insert a S) d \<and> a \<notin> S \<and> card (insert a S) = Suc (card S)"
proof -
  have fin: "finite S" using assms(1) unfolding anc_def by (meson finite_lessThan finite_subset)
  have notin: "a \<notin> S"
  proof
    assume "a \<in> S"
    then obtain J' where "json_at (\<lambda>a ob. True) h (VRef a) J'" "depth J < depth J'"
      using assms(1) unfolding anc_def by blast
    with assms(2) json_at_functional show False by fastforce
  qed
  have alt: "a < length h" using assms(2,3) by (cases J) auto
  have "anc h (insert a S) d"
    unfolding anc_def
  proof (intro conjI ballI)
    show "insert a S \<subseteq> {..<length h}" using alt assms(1) unfolding anc_def by auto
  next
    fix x assume "x \<in> insert a S"
    then show "\<exists>J. json_at (\<lambda>a ob. True) h (VRef x) J \<and> d < depth J"
      using assms unfolding anc_def by (metis insert_iff less_trans)
  qed
  with notin fin show ?thesis by simp
qed

lemma depth_bound_all:
  shows "(\<forall>S. json_at P h v j \<longrightarrow> P = (\<lambda>a ob. True) \<longrightarrow> anc h S (depth j) \<longrightarrow> depth j + card S \<le> length h)"
    and "(\<forall>S. json_at_fields P h es kvs \<longrightarrow> P = (\<lambda>a ob. True) \<longrightarrow> anc h S (depth_fields kvs) \<longrightarrow> depth_fields kvs + card S \<le> length h)"
    and "(\<forall>S. json_at_elems P h i es js \<longrightarrow> P = (\<lambda>a ob. True) \<longrightarrow> anc h S (depth_elems js) \<longrightarrow> depth_elems js + card S \<le> length h)"
proof (induction P h v j and P h es kvs and P h i es js
       rule: json_at_json_at_fields_json_at_elems.induct)
  case (5 P h v kvs)
  show ?case
  proof (intro allI impI)
    fix S assume a: "json_at P h v (JObj kvs)" and P: "P = (\<lambda>a ob. True)" and S: "anc h S (depth (JObj kvs))"
    from a obtain x where v: "v = VRef x" by (cases v) auto
    from a v have f: "json_at_fields P h (entries (h ! x)) kvs" by simp
    have "anc h (insert x S) (depth_fields kvs) \<and> x \<notin> S \<and> card (insert x S) = Suc (card S)"
      using anc_insert[OF S, of x "depth_fields kvs"] a v P by simp
    with "5.IH"[OF v] f P show "depth (JObj kvs) + card S \<le> length h" by auto
  qed
next
  case (6 P h v js)
  show ?case
  proof (intro allI impI)
    fix S assume a: "json_at P h v (JArr js)" and P: "P = (\<lambda>a ob. True)" and S: "anc h S (depth (JArr js))"
    from a obtain x where v: "v = VRef x" by (cases v) auto
    from a v have f: "json_at_elems P h 0 (entries (h ! x)) js" by simp
    have "anc h (insert x S) (depth_elems js) \<and> x \<notin> S \<and> card (insert x S) = Suc (card S)"
      using anc_insert[OF S, of x "depth_elems js"] a v P by simp
    with "6.IH"[OF v] f P show "depth (JArr js) + card S \<le> length h" by auto
  qed
next
  case (8 P h kv es kj kvs)
  show ?case
  proof (intro allI impI)
    fix S assume a: "json_at_fields P h (kv # es) (kj # kvs)" and P: "P = (\<lambda>a ob. True)"
      and S: "anc h S (depth_fields (kj # kvs))"
    have "anc h S (depth (snd kj))" "anc h S (depth_fields kvs)"
      using S by (auto intro: anc_mono)
    with "8.IH" a P have "depth (snd kj) + card S \<le> length h" "depth_fields kvs + card S \<le> length h"
      by auto
    then show "depth_fields (kj # kvs) + card S \<le> length h" by (simp add: max_def)
  qed
next
  case (12 P h i kv es j js)
  show ?case
  proof (intro allI impI)
    fix S assume a: "json_at_elems P h i (kv # es) (j # js)" and P: "P = (\<lambda>a ob. True)"
      and S: "anc h S (depth_elems (j # js))"
    have "anc h S (depth j)" "anc h S (depth_elems js)"
      using S by (auto intro: anc_mono)
    with "12.IH" a P have "depth j + card S \<le> length h" "depth_elems js + card S \<le> length h"
      by auto
    then show "depth_elems (j # js) + card S \<le> length h" by (simp add: max_def)
  qed
qed (auto dest: anc_card)

lemma repr_depth: "repr h v j \<Longrightarrow> depth j \<le> length h"
proof -
  assume "repr h v j"
  moreover have "anc h {} (depth j)" by (simp add: anc_def)
  ultimately show ?thesis using depth_bound_all(1)[of "\<lambda>a ob. True" h v j] by (auto simp: repr_def)
qed

section \<open>cloneDeep copies every value that reads as JSON\<close>

lemma json_at_append:
  shows "json_at P h v j \<Longrightarrow> json_at P (h @ ext) v j"
    and "json_at_fields P h es kvs \<Longrightarrow> json_at_fields P (h @ ext) es kvs"
    and "json_at_elems P h i es js \<Longrightarrow> json_at_elems P (h @ ext) i es js"
  using json_at_transfer_all[of h "h @ ext" P P]
  by (simp_all add: nth_append)

lemma json_at_weaken:
  assumes "\<And>a ob. P a ob \<Longrightarrow> Q a ob"
  shows "json_at P h v j \<Longrightarrow> json_at Q h v j"
    and "json_at_fields P h es kvs \<Longrightarrow> json_at_fields Q h es kvs"
    and "json_at_elems P h i es js \<Longrightarrow> json_at_elems Q h i es js"
  using json_at_transfer_all[of h h P Q] assms
  by simp_all

lemma entries_data_props:
  "length ks = length vs \<Longrightarrow>
   entries \<lparr>kind = k, props = zip ks (map data_prop vs), extensible = x\<rparr> = zip ks vs"
  by (induction ks vs rule: list_induct2) (simp_all add: entries_def enum_props_def data_prop_def)

lemma is_plain_data_props:
  "is_plain \<lparr>kind = k, props = zip ks (map data_prop vs), extensible = True\<rparr>"
  by (auto simp: is_plain_def list_all_iff set_zip data_prop_def)

lemma clone_fields:
  assumes IH: "\<And>v h j. depth j \<le> n \<Longrightarrow> json_at (\<lambda>a ob. True) h v j \<Longrightarrow>
     \<exists>v' ext. cloneDeepN n v h = Inr (v', h @ ext) \<and>
        json_at (\<lambda>a ob. length h \<le> a \<and> is_plain ob) (h @ ext) v' j"
  shows "json_at_fields (\<lambda>a ob. True) h es kvs \<Longrightarrow> depth_fields kvs \<le> n \<Longrightarrow> l \<le> length h \<Longrightarrow>
     \<exists>vs ext. mapM_heap (cloneDeepN n) (map snd es) h = Inr (vs, h @ ext) \<and> length vs = length es \<and>
        json_at_fields (\<lambda>a ob. l \<le> a \<and> is_plain ob) (h @ ext) (zip (map fst es) vs) kvs"
proof (induction es arbitrary: kvs h)
  case Nil
  then show ?case by (cases kvs) auto
next
  case (Cons kv es)
  from Cons.prems(1) obtain kj kvs' where kvs: "kvs = kj # kvs'" by (cases kvs) auto
  from Cons.prems kvs have hd: "fst kv = Name (fst kj)" "json_at (\<lambda>a ob. True) h (snd kv) (snd kj)"
    and tl: "json_at_fields (\<lambda>a ob. True) h es kvs'"
    and d: "depth (snd kj) \<le> n" "depth_fields kvs' \<le> n" by auto
  from IH[OF d(1) hd(2)] obtain v' e1 where
    c1: "cloneDeepN n (snd kv) h = Inr (v', h @ e1)"
    and j1: "json_at (\<lambda>a ob. length h \<le> a \<and> is_plain ob) (h @ e1) v' (snd kj)" by blast
  from json_at_append(2)[OF tl] have tl': "json_at_fields (\<lambda>a ob. True) (h @ e1) es kvs'" .
  from Cons.IH[OF tl' d(2), of ] Cons.prems(3) obtain vs e2 where
    c2: "mapM_heap (cloneDeepN n) (map snd es) (h @ e1) = Inr (vs, (h @ e1) @ e2)"
    and len: "length vs = length es"
    and j2: "json_at_fields (\<lambda>a ob. l \<le> a \<and> is_plain ob) ((h @ e1) @ e2) (zip (map fst es) vs) kvs'"
    by fastforce
  have "json_at (\<lambda>a ob. l \<le> a \<and> is_plain ob) (h @ e1) v' (snd kj)"
    using json_at_weaken(1)[OF _ j1] Cons.prems(3) by simp
  then have j1': "json_at (\<lambda>a ob. l \<le> a \<and> is_plain ob) ((h @ e1) @ e2) v' (snd kj)"
    by (rule json_at_append(1))
  show ?case
    apply (rule exI[of _ "v' # vs"], rule exI[of _ "e1 @ e2"])
    using c1 c2 len j1' j2 hd kvs by simp
qed

lemma clone_elems:
  assumes IH: "\<And>v h j. depth j \<le> n \<Longrightarrow> json_at (\<lambda>a ob. True) h v j \<Longrightarrow>
     \<exists>v' ext. cloneDeepN n v h = Inr (v', h @ ext) \<and>
        json_at (\<lambda>a ob. length h \<le> a \<and> is_plain ob) (h @ ext) v' j"
  shows "json_at_elems (\<lambda>a ob. True) h i es js \<Longrightarrow> depth_elems js \<le> n \<Longrightarrow> l \<le> length h \<Longrightarrow>
     \<exists>vs ext. mapM_heap (cloneDeepN n) (map snd es) h = Inr (vs, h @ ext) \<and> length vs = length es \<and>
        json_at_elems (\<lambda>a ob. l \<le> a \<and> is_plain ob) (h @ ext) i (zip (map fst es) vs) js"
proof (induction es arbitrary: js h i)
  case Nil
  then show ?case by (cases js) auto
next
  case (Cons kv es)
  from Cons.prems(1) obtain j js' where js: "js = j # js'" by (cases js) auto
  from Cons.prems js have hd: "fst kv = Index i" "json_at (\<lambda>a ob. True) h (snd kv) j"
    and tl: "json_at_elems (\<lambda>a ob. True) h (Suc i) es js'"
    and d: "depth j \<le> n" "depth_elems js' \<le> n" by auto
  from IH[OF d(1) hd(2)] obtain v' e1 where
    c1: "cloneDeepN n (snd kv) h = Inr (v', h @ e1)"
    and j1: "json_at (\<lambda>a ob. length h \<le> a \<and> is_plain ob) (h @ e1) v' j" by blast
  from json_at_append(3)[OF tl] have tl': "json_at_elems (\<lambda>a ob. True) (h @ e1) (Suc i) es js'" .
  from Cons.IH[OF tl' d(2)] Cons.prems(3) obtain vs e2 where
    c2: "mapM_heap (cloneDeepN n) (map snd es) (h @ e1) = Inr (vs, (h @ e1) @ e2)"
    and len: "length vs = length es"
    and j2: "json_at_elems (\<lambda>a ob. l \<le> a \<and> is_plain ob) ((h @ e1) @ e2) (Suc i) (zip (map fst es) vs) js'"
    by fastforce
  have "json_at (\<lambda>a ob. l \<le> a \<and> is_plain ob) (h @ e1) v' j"
    using json_at_weaken(1)[OF _ j1] Cons.prems(3) by simp
  then have j1': "json_at (\<lambda>a ob. l \<le> a \<and> is_plain ob) ((h @ e1) @ e2) v' j"
    by (rule json_at_append(1))
  show ?case
    apply (rule exI[of _ "v' # vs"], rule exI[of _ "e1 @ e2"])
    using c1 c2 len j1' j2 hd js by simp
qed

lemma cloneDeepN_correct:
  "depth j \<le> n \<Longrightarrow> json_at (\<lambda>a ob. True) h v j \<Longrightarrow>
     \<exists>v' ext. cloneDeepN n v h = Inr (v', h @ ext) \<and>
        json_at (\<lambda>a ob. length h \<le> a \<and> is_plain ob) (h @ ext) v' j"
proof (induction n arbitrary: v h j)
  case 0
  then show ?case by (cases j) auto
next
  case (Suc n)
  show ?case
  proof (cases j)
    case (JObj kvs)
    with Suc.prems obtain a where v: "v = VRef a" and a: "a < length h" "kind (h ! a) = PlainObject"
      and f: "json_at_fields (\<lambda>a ob. True) h (entries (h ! a)) kvs" and d: "depth_fields kvs \<le> n"
      by (cases v) auto
    from clone_fields[OF Suc.IH f d, of "length h"] obtain vs ext where
      m: "mapM_heap (cloneDeepN n) (map snd (entries (h ! a))) h = Inr (vs, h @ ext)"
      and len: "length vs = length (entries (h ! a))"
      and jf: "json_at_fields (\<lambda>a ob. length h \<le> a \<and> is_plain ob) (h @ ext)
                 (zip (map fst (entries (h ! a))) vs) kvs" by auto
    let ?ob = "\<lparr>kind = kind (h ! a), props = zip (map fst (entries (h ! a))) (map data_prop vs),
                 extensible = True\<rparr>"
    have e: "entries ?ob = zip (map fst (entries (h ! a))) vs"
      using len by (simp add: entries_data_props)
    have "cloneDeepN (Suc n) v h = Inr (VRef (length (h @ ext)), h @ (ext @ [?ob]))"
      using v a m by (simp add: alloc_def)
    moreover have "json_at (\<lambda>a ob. length h \<le> a \<and> is_plain ob) (h @ (ext @ [?ob]))
        (VRef (length (h @ ext))) j"
      using json_at_append(2)[OF jf, of "[?ob]"] e a JObj
      by (simp add: nth_append is_plain_data_props del: entries_data_props)
    ultimately show ?thesis by blast
  next
    case (JArr js)
    with Suc.prems obtain a where v: "v = VRef a" and a: "a < length h" "kind (h ! a) = ArrayObject"
      and f: "json_at_elems (\<lambda>a ob. True) h 0 (entries (h ! a)) js" and d: "depth_elems js \<le> n"
      by (cases v) auto
    from clone_elems[OF Suc.IH f d, of "length h"] obtain vs ext where
      m: "mapM_heap (cloneDeepN n) (map snd (entries (h ! a))) h = Inr (vs, h @ ext)"
      and len: "length vs = length (entries (h ! a))"
      and jf: "json_at_elems (\<lambda>a ob. length h \<le> a \<and> is_plain ob) (h @ ext) 0
                 (zip (map fst (entries (h ! a))) vs) js" by auto
    let ?ob = "\<lparr>kind = kind (h ! a), props = zip (map fst (entries (h ! a))) (map data_prop vs),
                 extensible = True\<rparr>"
    have e: "entries ?ob = zip (map fst (entries (h ! a))) vs"
      using len by (simp add: entries_data_props)
    have "cloneDeepN (Suc n) v h = Inr (VRef (length (h @ ext)), h @ (ext @ [?ob]))"
      using v a m by (simp add: alloc_def)
    moreover have "json_at (\<lambda>a ob. length h \<le> a \<and> is_plain ob) (h @ (ext @ [?ob]))
        (VRef (length (h @ ext))) j"
      using json_at_append(3)[OF jf, of "[?ob]"] e a JArr
      by (simp add: nth_append is_plain_data_props)
    ultimately show ?thesis by blast
  qed (use Suc.prems in auto)
qed

lemma cloneDeep_repr:
  assumes "repr h v j"
  shows "\<exists>v' ext. cloneDeep v h = Inr (v', h @ ext) \<and>
           json_at (\<lambda>a ob. length h \<le> a \<and> is_plain ob) (h @ ext) v' j"
  unfolding cloneDeep_def
  using cloneDeepN_correct[OF repr_depth[OF assms]] assms by (simp add: repr_def)

section \<open>The deep freeze\<close>










section \<open>What wrapPreviewApiKey builds\<close>

lemma json_at_fields_Cons [simp]:
  "json_at_fields P h es (kj # kvs) \<longleftrightarrow>
     (\<exists>v es'. es = (Name (fst kj), v) # es' \<and> json_at P h v (snd kj) \<and> json_at_fields P h es' kvs)"
  by (cases es) (auto simp: prod_eq_iff)

lemma json_at_fields_Nil [simp]: "json_at_fields P h es [] \<longleftrightarrow> es = []"
  by (cases es) auto


lemma zip_eq_Cons:
  "length ks = length vs \<Longrightarrow> zip ks vs = x # xs \<Longrightarrow>
     \<exists>k ks' v vs'. ks = k # ks' \<and> vs = v # vs' \<and> x = (k, v) \<and> xs = zip ks' vs'"
  by (cases ks; cases vs) auto






section \<open>Mutations, and frozen objects\<close>











section \<open>Wrapped entities and collections\<close>






lemma own_value_entity_object_sys [simp]: "own_value (entity_object s d) (Name ''sys'') = s"
  by (simp add: own_value_def entity_object_def data_prop_def)





lemma array_elems_new_array [simp]: "array_elems (new_array ws) = ws"
  by (simp add: array_elems_def new_array_def entries_data_props)


section \<open>The methods of the Organization API\<close>

lemma request_then_requests [simp]:
  "requests (request_then http req f g h) = [(req, h)]"
  by (simp add: request_then_def split: sum.splits prod.splits)



lemma assign_takes:
  "takes_assignment h a k \<Longrightarrow> \<exists>h2. assign (VRef a) k v h = Inr h2"
  by (auto simp: takes_assignment_def assign_def set_prop_def Let_def split: option.splits)


subsection \<open>What happens before the request: the assignment and createRequestConfig\<close>

lemma filter_absent: "map_of ps k = None \<Longrightarrow> filter (\<lambda>kp. fst kp \<noteq> k) ps = ps"
  by (induction ps) (auto split: if_splits)


lemma without_prop_absent: "map_of (props ob) k = None \<Longrightarrow> without_prop k ob = ob"
  by (simp add: without_prop_def filter_absent)

lemma entries_without_prop:
  "entries (without_prop k ob) = filter (\<lambda>kv. fst kv \<noteq> k) (entries ob)"
  by (simp add: entries_def enum_props_def without_prop_def filter_map comp_def conj_commute)

lemma kind_without_prop [simp]: "kind (without_prop k ob) = kind ob"
  by (simp add: without_prop_def)

lemma json_at_fields_drop:
  "json_at_fields P h es kvs \<Longrightarrow>
   json_at_fields P h (filter (\<lambda>kv. fst kv \<noteq> Name s) es) (drop_field s kvs)"
  by (induction kvs arbitrary: es) (auto simp: drop_field_def)

lemma json_at_avoids_all:
  assumes "\<And>J. json_at (\<lambda>a ob. True) h (VRef a) J \<Longrightarrow> d \<le> depth J"
  shows "json_at P h v j \<longrightarrow> depth j < d \<longrightarrow> json_at (\<lambda>x ob. P x ob \<and> x \<noteq> a) h v j"
    and "json_at_fields P h es kvs \<longrightarrow> depth_fields kvs < d \<longrightarrow>
           json_at_fields (\<lambda>x ob. P x ob \<and> x \<noteq> a) h es kvs"
    and "json_at_elems P h i es js \<longrightarrow> depth_elems js < d \<longrightarrow>
           json_at_elems (\<lambda>x ob. P x ob \<and> x \<noteq> a) h i es js"
  using assms
proof (induction P h v j and P h es kvs and P h i es js
       rule: json_at_json_at_fields_json_at_elems.induct)
  case (5 P h v kvs)
  show ?case
  proof (cases v)
    case (VRef x)
    show ?thesis
    proof (intro impI)
      assume j: "json_at P h v (JObj kvs)" and d: "depth (JObj kvs) < d"
      from j VRef have b: "x < length h" "kind (h ! x) = PlainObject" "P x (h ! x)"
        "json_at_fields P h (entries (h ! x)) kvs" by auto
      have "x \<noteq> a"
      proof
        assume "x = a"
        with j VRef have "json_at (\<lambda>a ob. True) h (VRef a) (JObj kvs)"
          using json_at_weaken(1)[of P "\<lambda>a ob. True" h v "JObj kvs"] by simp
        from "5.prems"[OF this] d show False by simp
      qed
      moreover from "5.IH"[OF VRef "5.prems"] b(4) d
      have "json_at_fields (\<lambda>x ob. P x ob \<and> x \<noteq> a) h (entries (h ! x)) kvs" by simp
      ultimately show "json_at (\<lambda>x ob. P x ob \<and> x \<noteq> a) h v (JObj kvs)"
        using b VRef by simp
    qed
  qed auto
next
  case (6 P h v js)
  show ?case
  proof (cases v)
    case (VRef x)
    show ?thesis
    proof (intro impI)
      assume j: "json_at P h v (JArr js)" and d: "depth (JArr js) < d"
      from j VRef have b: "x < length h" "kind (h ! x) = ArrayObject" "P x (h ! x)"
        "json_at_elems P h 0 (entries (h ! x)) js" by auto
      have "x \<noteq> a"
      proof
        assume "x = a"
        with j VRef have "json_at (\<lambda>a ob. True) h (VRef a) (JArr js)"
          using json_at_weaken(1)[of P "\<lambda>a ob. True" h v "JArr js"] by simp
        from "6.prems"[OF this] d show False by simp
      qed
      moreover from "6.IH"[OF VRef "6.prems"] b(4) d
      have "json_at_elems (\<lambda>x ob. P x ob \<and> x \<noteq> a) h 0 (entries (h ! x)) js" by simp
      ultimately show "json_at (\<lambda>x ob. P x ob \<and> x \<noteq> a) h v (JArr js)"
        using b VRef by simp
    qed
  qed auto
qed auto

lemma root_fields_avoid:
  assumes "repr h (VRef a) (JObj kvs)"
  shows "json_at_fields (\<lambda>x ob. x \<noteq> a) h (entries (h ! a)) kvs"
proof -
  have f: "json_at_fields (\<lambda>a ob. True) h (entries (h ! a)) kvs"
    using assms by (simp add: repr_def)
  have "\<And>J. json_at (\<lambda>a ob. True) h (VRef a) J \<Longrightarrow> depth (JObj kvs) \<le> depth J"
    using json_at_functional[OF assms[unfolded repr_def]] by fastforce
  from json_at_avoids_all(2)[OF this, where P = "\<lambda>a ob. True" and es = "entries (h ! a)" and kvs = kvs] f
  show ?thesis by simp
qed

lemma root_update:
  assumes "a < length h" "kind ob' = PlainObject"
    and "json_at_fields (\<lambda>x ob. x \<noteq> a) h (entries ob') kvs'"
  shows "repr (h[a := ob']) (VRef a) (JObj kvs')"
proof -
  have "json_at_fields (\<lambda>a ob. True) (h[a := ob']) (entries ob') kvs'"
    using json_at_transfer_all(2)[of h "h[a := ob']" "\<lambda>x ob. x \<noteq> a" "\<lambda>a ob. True" "entries ob'" kvs']
      assms(3) by simp
  then show ?thesis using assms by (simp add: repr_def)
qed

lemma delete_prop_lets:
  "lets_delete h a k \<Longrightarrow> delete_prop a k h = Inr (h[a := without_prop k (h ! a)])"
  by (auto simp: lets_delete_def delete_prop_def Let_def without_prop_absent split: option.splits)
     (simp add: without_prop_def)

lemma delete_prop_throws:
  "a < length h \<Longrightarrow> \<not> lets_delete h a k \<Longrightarrow> delete_prop a k h = Inl TypeError"
  by (auto simp: lets_delete_def delete_prop_def Let_def split: option.splits)

lemma createRequestConfig_ok:
  assumes r: "repr h (VRef a) (JObj kvs)" and d: "lets_delete h a (Name ''resolveLinks'')"
  shows "\<exists>p ext. createRequestConfig (VRef a) h =
            (Inr (RequestConfig p), h[a := without_prop (Name ''resolveLinks'') (h ! a)] @ ext) \<and>
          repr (h[a := without_prop (Name ''resolveLinks'') (h ! a)]) (VRef a)
            (JObj (drop_field ''resolveLinks'' kvs)) \<and>
          json_at (\<lambda>x ob. length h \<le> x \<and> is_plain ob)
            (h[a := without_prop (Name ''resolveLinks'') (h ! a)] @ ext) p
            (JObj (drop_field ''resolveLinks'' kvs))"
proof -
  define h1 where "h1 = h[a := without_prop (Name ''resolveLinks'') (h ! a)]"
  from r have a: "a < length h" "kind (h ! a) = PlainObject" by (simp_all add: repr_def)
  have r1: "repr h1 (VRef a) (JObj (drop_field ''resolveLinks'' kvs))"
    unfolding h1_def
    by (rule root_update[OF a(1)])
       (simp_all add: a entries_without_prop json_at_fields_drop[OF root_fields_avoid[OF r]])
  from cloneDeep_repr[OF r1] obtain p ext where
    c: "cloneDeep (VRef a) h1 = Inr (p, h1 @ ext)"
    and j: "json_at (\<lambda>x ob. length h1 \<le> x \<and> is_plain ob) (h1 @ ext) p
              (JObj (drop_field ''resolveLinks'' kvs))" by blast
  have "createRequestConfig (VRef a) h = (Inr (RequestConfig p), h1 @ ext)"
    using delete_prop_lets[OF d] c by (simp add: createRequestConfig_def delete_member_def h1_def)
  moreover have "length h1 = length h" by (simp add: h1_def)
  ultimately show ?thesis using r1 j unfolding h1_def by auto
qed






lemma thrown_simps [simp]:
  "requests (thrown e h) = []" "settled (thrown e h) = Inl e" "heap_after (thrown e h) = h"
  by (simp_all add: thrown_def)

lemma repr_empty_object: "repr (h @ [empty_object]) (VRef (length h)) (JObj [])"
  by (simp add: repr_def empty_object_def entries_def enum_props_def)

lemma lets_delete_empty_object: "lets_delete (h @ [empty_object]) (length h) k"
  by (simp add: lets_delete_def empty_object_def)

lemma lets_delete_append: "a < length h \<Longrightarrow> lets_delete (h @ ext) a k = lets_delete h a k"
  by (simp add: lets_delete_def nth_append cong: option.case_cong)



lemma repr_append: "repr h v j \<Longrightarrow> repr (h @ ext) v j"
  by (simp add: repr_def json_at_append(1))

text \<open>
  \<open>createRequestConfig\<close> on the default query, the new empty object: the parameters
  are a new empty object.
\<close>

lemma createRequestConfig_default:
  "\<exists>p ext. createRequestConfig (VRef (length h)) (h @ [empty_object]) =
            (Inr (RequestConfig p), (h @ [empty_object]) @ ext) \<and>
          json_at (\<lambda>x ob. length h \<le> x \<and> is_plain ob) ((h @ [empty_object]) @ ext) p (JObj [])"
proof -
  define h1 where "h1 = h @ [empty_object]"
  have w: "h1[length h := without_prop (Name ''resolveLinks'') (h1 ! length h)] = h1"
    by (simp add: h1_def without_prop_def empty_object_def)
  from createRequestConfig_ok[OF repr_empty_object lets_delete_empty_object, of h]
  obtain p ext where
    "createRequestConfig (VRef (length h)) h1 = (Inr (RequestConfig p), h1 @ ext)"
    "json_at (\<lambda>x ob. length h1 \<le> x \<and> is_plain ob) (h1 @ ext) p (JObj [])"
    unfolding h1_def[symmetric] w by (auto simp: drop_field_def)
  moreover from this(2) have "json_at (\<lambda>x ob. length h \<le> x \<and> is_plain ob) (h1 @ ext) p (JObj [])"
    by (rule json_at_weaken(1)[rotated]) (simp add: h1_def)
  ultimately show ?thesis unfolding h1_def by blast
qed

text \<open>
  \<open>createRequestConfig\<close> on a query object of the caller, in a heap that the call has
  extended by objects of its own.
\<close>

lemma createRequestConfig_caller:
  assumes r: "repr h (VRef a) (JObj kvs)" and d: "lets_delete h a (Name ''resolveLinks'')"
  shows "\<exists>p hr. createRequestConfig (VRef a) (h @ own) = (Inr (RequestConfig p), hr) \<and>
          length h \<le> length hr \<and>
          hr ! a = without_prop (Name ''resolveLinks'') (h ! a) \<and>
          (\<forall>b<length h. b \<noteq> a \<longrightarrow> hr ! b = h ! b) \<and>
          repr hr (VRef a) (JObj (drop_field ''resolveLinks'' kvs)) \<and>
          json_at (\<lambda>x ob. length h \<le> x \<and> is_plain ob) hr p (JObj (drop_field ''resolveLinks'' kvs))"
proof -
  define h1 where "h1 = h @ own"
  from r have a: "a < length h" by (simp add: repr_def)
  have r1: "repr h1 (VRef a) (JObj kvs)" unfolding h1_def by (rule repr_append[OF r])
  have d1: "lets_delete h1 a (Name ''resolveLinks'')"
    unfolding h1_def using d a by (simp add: lets_delete_append)
  define h2 where "h2 = h1[a := without_prop (Name ''resolveLinks'') (h1 ! a)]"
  from createRequestConfig_ok[OF r1 d1] obtain p ext where
    c: "createRequestConfig (VRef a) h1 = (Inr (RequestConfig p), h2 @ ext)"
    and r2: "repr h2 (VRef a) (JObj (drop_field ''resolveLinks'' kvs))"
    and j: "json_at (\<lambda>x ob. length h1 \<le> x \<and> is_plain ob) (h2 @ ext) p
              (JObj (drop_field ''resolveLinks'' kvs))"
    unfolding h2_def by blast
  have l: "length h2 = length h1" "length h \<le> length h1" by (simp_all add: h2_def h1_def)
  have "json_at (\<lambda>x ob. length h \<le> x \<and> is_plain ob) (h2 @ ext) p
          (JObj (drop_field ''resolveLinks'' kvs))"
    by (rule json_at_weaken(1)[OF _ j]) (use l in simp)
  moreover have "(h2 @ ext) ! a = without_prop (Name ''resolveLinks'') (h ! a)"
    using a by (simp add: h2_def h1_def nth_append)
  moreover have "\<forall>b<length h. b \<noteq> a \<longrightarrow> (h2 @ ext) ! b = h ! b"
    by (simp add: h2_def h1_def nth_append)
  moreover have "length h \<le> length (h2 @ ext)" using l by simp
  moreover have "repr (h2 @ ext) (VRef a) (JObj (drop_field ''resolveLinks'' kvs))"
    by (rule repr_append[OF r2])
  ultimately show ?thesis using c unfolding h1_def by blast
qed

lemma createRequestConfig_throws:
  assumes "a < length h" "\<not> lets_delete h a (Name ''resolveLinks'')"
  shows "createRequestConfig (VRef a) (h @ own) = (Inl TypeError, h @ own)"
proof -
  have "\<not> lets_delete (h @ own) a (Name ''resolveLinks'')"
    using assms by (simp add: lets_delete_append)
  from delete_prop_throws[OF _ this] assms(1) show ?thesis
    by (simp add: createRequestConfig_def delete_member_def)
qed




lemma truthy_opt_value: "truthy (opt_value s) \<longleftrightarrow> (\<exists>t. s = Some t \<and> t \<noteq> [])"
  by (cases s) (simp_all add: opt_value_def truthy_def)





section \<open>The claims\<close>

text \<open>
  C10. The result of \<open>wrapPreviewApiKey\<close> does not depend on its HTTP client: for the
  same data and heap, any two clients give the same wrapped entity and the same heap.
\<close>

theorem wrapPreviewApiKey_ignores_http:
  "wrapPreviewApiKey http1 data h = wrapPreviewApiKey http2 data h"
  by (simp add: wrapPreviewApiKey_def)

theorem wrapPreviewApiKey_ignores_http_witness:
  "wrapPreviewApiKey ex_http ex_data ex_heap = wrapPreviewApiKey ex_http2 ex_data ex_heap"
  using wrapPreviewApiKey_ignores_http [of ex_http ex_data ex_heap ex_http2] by simp


















text \<open>
  C8, as amended. The claim says that \<open>getTeamMemberships\<close> issues its GET request for
  every \<open>opts\<close>, with \<open>opts.query\<close> as the query. Between the choice of the query and the
  request stands \<open>createRequestConfig\<close>. For every \<open>opts\<close> whose query, when there is one,
  holds JSON data (the fields \<open>kvs\<close>) and lets \<open>resolveLinks\<close> be deleted, the call issues
  one GET request. Its path is \<^verbatim>\<open>'teams/' + opts.teamId + '/team_memberships'\<close> when
  \<open>opts.teamId\<close> is a non-empty string, and \<^verbatim>\<open>'team_memberships'\<close> exactly when it is not.
  The query is \<open>opts.query\<close> when that is there and a new empty object otherwise; its
  \<open>resolveLinks\<close> is deleted, on the caller's own object, and the parameters of the request
  are a deep copy, in new objects, of what the query then holds. Nothing else of the
  caller's heap is changed. When \<open>opts.query\<close> does not let \<open>resolveLinks\<close> be deleted (a
  frozen query that holds it), the call throws a TypeError, issues no request and changes
  nothing of the caller.
\<close>

theorem getTeamMemberships_request:
  "((case opts_query opts of
       None \<Rightarrow> True
     | Some a \<Rightarrow> repr h (VRef a) (JObj kvs) \<and> lets_delete h a (Name ''resolveLinks'')) \<longrightarrow>
    (\<exists>p hr. requests (getTeamMemberships ents http opts h) =
               [(Get (case teamId opts of
                        Some t \<Rightarrow> if t \<noteq> [] then ''teams/'' @ t @ ''/team_memberships''
                                  else ''team_memberships''
                      | None \<Rightarrow> ''team_memberships'')
                     (RequestConfig p), hr)] \<and>
             json_at (\<lambda>x ob. length h \<le> x \<and> is_plain ob) hr p
               (JObj (case opts_query opts of
                        None \<Rightarrow> []
                      | Some a \<Rightarrow> drop_field ''resolveLinks'' kvs)) \<and>
             (\<forall>b<length h.
                 hr ! b = (if opts_query opts = Some b
                           then without_prop (Name ''resolveLinks'') (h ! b) else h ! b)))) \<and>
   (\<forall>a. opts_query opts = Some a \<longrightarrow> a < length h \<longrightarrow> \<not> lets_delete h a (Name ''resolveLinks'') \<longrightarrow>
      requests (getTeamMemberships ents http opts h) = [] \<and>
      settled (getTeamMemberships ents http opts h) = Inl TypeError \<and>
      take (length h) (heap_after (getTeamMemberships ents http opts h)) = h) \<and>
   ((case teamId opts of
       Some t \<Rightarrow> if t \<noteq> [] then ''teams/'' @ t @ ''/team_memberships'' else ''team_memberships''
     | None \<Rightarrow> ''team_memberships'') = ''team_memberships''
    \<longleftrightarrow> \<not> (\<exists>t. teamId opts = Some t \<and> t \<noteq> []))"
proof (intro conjI impI allI)
  assume q: "case opts_query opts of
       None \<Rightarrow> True
     | Some a \<Rightarrow> repr h (VRef a) (JObj kvs) \<and> lets_delete h a (Name ''resolveLinks'')"
  let ?path = "case teamId opts of
                        Some t \<Rightarrow> if t \<noteq> [] then ''teams/'' @ t @ ''/team_memberships''
                                  else ''team_memberships''
                      | None \<Rightarrow> ''team_memberships''"
  have "\<exists>query p hr. get_query opts h = (query, h @ [empty_object]) \<and>
          createRequestConfig query (h @ [empty_object]) = (Inr (RequestConfig p), hr) \<and>
          json_at (\<lambda>x ob. length h \<le> x \<and> is_plain ob) hr p
               (JObj (case opts_query opts of
                        None \<Rightarrow> []
                      | Some a \<Rightarrow> drop_field ''resolveLinks'' kvs)) \<and>
          (\<forall>b<length h.
                 hr ! b = (if opts_query opts = Some b
                           then without_prop (Name ''resolveLinks'') (h ! b) else h ! b))"
  proof (cases "opts_query opts")
    case None
    from createRequestConfig_default[of h] obtain p ext where
      "createRequestConfig (VRef (length h)) (h @ [empty_object]) =
         (Inr (RequestConfig p), (h @ [empty_object]) @ ext)"
      "json_at (\<lambda>x ob. length h \<le> x \<and> is_plain ob) ((h @ [empty_object]) @ ext) p (JObj [])"
      by blast
    with None show ?thesis
      by (auto simp: get_query_def alloc_def nth_append)
  next
    case (Some a)
    with q have "repr h (VRef a) (JObj kvs)" "lets_delete h a (Name ''resolveLinks'')" by simp_all
    from createRequestConfig_caller[OF this, of "[empty_object]"] obtain p hr where
      "createRequestConfig (VRef a) (h @ [empty_object]) = (Inr (RequestConfig p), hr)"
      "hr ! a = without_prop (Name ''resolveLinks'') (h ! a)"
      "\<forall>b<length h. b \<noteq> a \<longrightarrow> hr ! b = h ! b"
      "json_at (\<lambda>x ob. length h \<le> x \<and> is_plain ob) hr p (JObj (drop_field ''resolveLinks'' kvs))"
      by blast
    with Some show ?thesis
      by (auto simp: get_query_def alloc_def)
  qed
  then obtain query p hr where
    g: "get_query opts h = (query, h @ [empty_object])"
    "createRequestConfig query (h @ [empty_object]) = (Inr (RequestConfig p), hr)"
    and j: "json_at (\<lambda>x ob. length h \<le> x \<and> is_plain ob) hr p
               (JObj (case opts_query opts of
                        None \<Rightarrow> []
                      | Some a \<Rightarrow> drop_field ''resolveLinks'' kvs))"
    "\<forall>b<length h.
                 hr ! b = (if opts_query opts = Some b
                           then without_prop (Name ''resolveLinks'') (h ! b) else h ! b)"
    by blast
  have "requests (getTeamMemberships ents http opts h) = [(Get ?path (RequestConfig p), hr)]"
    using g by (auto simp: getTeamMemberships_def truthy_opt_value opt_string_def
        split: option.splits)
  with j show "\<exists>p hr. requests (getTeamMemberships ents http opts h) =
               [(Get ?path (RequestConfig p), hr)] \<and>
             json_at (\<lambda>x ob. length h \<le> x \<and> is_plain ob) hr p
               (JObj (case opts_query opts of
                        None \<Rightarrow> []
                      | Some a \<Rightarrow> drop_field ''resolveLinks'' kvs)) \<and>
             (\<forall>b<length h.
                 hr ! b = (if opts_query opts = Some b
                           then without_prop (Name ''resolveLinks'') (h ! b) else h ! b))"
    by blast
next
  fix a
  assume a: "opts_query opts = Some a" "a < length h" "\<not> lets_delete h a (Name ''resolveLinks'')"
  from createRequestConfig_throws[OF a(2,3), of "[empty_object]"] a(1)
  show "requests (getTeamMemberships ents http opts h) = []"
    "settled (getTeamMemberships ents http opts h) = Inl TypeError"
    "take (length h) (heap_after (getTeamMemberships ents http opts h)) = h"
    by (simp_all add: getTeamMemberships_def get_query_def alloc_def)
next
  show "((case teamId opts of
       Some t \<Rightarrow> if t \<noteq> [] then ''teams/'' @ t @ ''/team_memberships'' else ''team_memberships''
     | None \<Rightarrow> ''team_memberships'') = ''team_memberships'')
    = (\<not> (\<exists>t. teamId opts = Some t \<and> t \<noteq> []))"
    by (auto split: option.splits)
qed

theorem getTeamMemberships_request_witness:
  "repr ex_links_heap (VRef 0) (JObj [(''resolveLinks'', JBool True), (''limit'', JNum 10)]) \<and>
   lets_delete ex_links_heap 0 (Name ''resolveLinks'') \<and>
   (\<exists>p hr. requests (getTeamMemberships ex_entities ex_http ex_opts ex_links_heap) =
              [(Get ''teams/team1/team_memberships'' (RequestConfig p), hr)] \<and>
            json_at (\<lambda>x ob. length ex_links_heap \<le> x \<and> is_plain ob) hr p (JObj [(''limit'', JNum 10)]) \<and>
            hr ! 0 = ex_query_heap ! 0)"
proof -
  have r: "repr ex_links_heap (VRef 0) (JObj [(''resolveLinks'', JBool True), (''limit'', JNum 10)])"
    "lets_delete ex_links_heap 0 (Name ''resolveLinks'')"
    by (simp_all add: ex_links_heap_def lets_delete_def repr_def entries_def enum_props_def data_prop_def)
  have o: "opts_query ex_opts = Some 0" "teamId ex_opts = Some ''team1''"
    by (simp_all add: ex_opts_def)
  have w: "without_prop (Name ''resolveLinks'') (ex_links_heap ! 0) = ex_query_heap ! 0"
    by (simp add: without_prop_def ex_links_heap_def ex_query_heap_def)
  have l: "0 < length ex_links_heap" by (simp add: ex_links_heap_def)
  from getTeamMemberships_request
      [where opts = ex_opts and h = ex_links_heap and ents = ex_entities and http = ex_http
       and kvs = "[(''resolveLinks'', JBool True), (''limit'', JNum 10)]"] r o
  obtain p hr where
    "requests (getTeamMemberships ex_entities ex_http ex_opts ex_links_heap) =
              [(Get ''teams/team1/team_memberships'' (RequestConfig p), hr)]"
    "json_at (\<lambda>x ob. length ex_links_heap \<le> x \<and> is_plain ob) hr p
       (JObj (drop_field ''resolveLinks'' [(''resolveLinks'', JBool True), (''limit'', JNum 10)]))"
    "\<forall>b<length ex_links_heap.
        hr ! b = (if Some 0 = Some b then without_prop (Name ''resolveLinks'') (ex_links_heap ! b)
                  else ex_links_heap ! b)"
    by auto
  with r w l show ?thesis by (auto simp: drop_field_def)
qed

text \<open>
  The counterexample to C8 as stated. With the frozen query
  \<^verbatim>\<open>Object.freeze({ resolveLinks: true, limit: 10 })\<close> the call throws a TypeError and
  issues no request. With the query \<^verbatim>\<open>{ resolveLinks: true, limit: 10 }\<close> the request is
  issued, and by then the caller's query has lost \<open>resolveLinks\<close>: it is
  \<^verbatim>\<open>{ limit: 10 }\<close>, and the parameters of the request are a new object
  \<^verbatim>\<open>{ limit: 10 }\<close>, not \<open>opts.query\<close>.
\<close>

theorem getTeamMemberships_frozen_query_counterexample:
  "requests (getTeamMemberships ex_entities ex_http2 ex_opts ex_frozen_links_heap) = [] \<and>
   settled (getTeamMemberships ex_entities ex_http2 ex_opts ex_frozen_links_heap) = Inl TypeError \<and>
   requests (getTeamMemberships ex_entities ex_http2 ex_opts ex_links_heap) =
     [(Get ''teams/team1/team_memberships'' (RequestConfig (VRef 2)),
       ex_query_heap @ [empty_object] @ ex_query_heap)] \<and>
   own_value (ex_links_heap ! 0) (Name ''resolveLinks'') = VBool True"
  by (simp add: getTeamMemberships_def get_query_def alloc_def ex_opts_def ex_frozen_links_heap_def
      ex_links_heap_def ex_query_heap_def opt_value_def opt_string_def truthy_def freeze_obj_def
      nth_append freeze_prop_def data_prop_def createRequestConfig_def delete_member_def
      delete_prop_def cloneDeep_def entries_def enum_props_def own_value_def empty_object_def
      numeral_2_eq_2)




end
